theory Spec2Isabelle
  imports Main
begin

section \<open>Logging\<close>

text \<open>
  Every module of the simulator writes to its own \<^verbatim>\<open>logging.getLogger(__name__)\<close>.
  A log is modelled as the list of the records written so far: the level and the text of
  the message (numbers interpolated into a message are left out of the text).
\<close>

datatype log_level = DEBUG | INFO | WARNING | ERROR

type_synonym log_record = "log_level \<times> string"

section \<open>Events and the event manager (simulation\_core/event\_manager.py)\<close>

datatype EventType = GENERAL | DISRUPTION_START | DISRUPTION_END | POLICY_CHANGE | AGENT_ACTION

fun EventType_name :: "EventType \<Rightarrow> string" where
  "EventType_name GENERAL = ''GENERAL''"
| "EventType_name DISRUPTION_START = ''DISRUPTION_START''"
| "EventType_name DISRUPTION_END = ''DISRUPTION_END''"
| "EventType_name POLICY_CHANGE = ''POLICY_CHANGE''"
| "EventType_name AGENT_ACTION = ''AGENT_ACTION''"

text \<open>
  Class \<^verbatim>\<open>Event\<close>. The callable of an event together with the \<^verbatim>\<open>args\<close> and
  \<^verbatim>\<open>kwargs\<close> bound to it at scheduling time is one value of the type parameter
  \<open>'a\<close>; calling it is observed through the list \<open>invoked\<close> of the manager below.
  A callable is taken to leave the event manager alone: what it does elsewhere is not
  part of the model, only whether it raises.
\<close>

record 'a Event =
  step :: int
  event_type :: EventType
  action :: 'a
  description :: string
  triggered :: bool

text \<open>\<^verbatim>\<open>Event.__init__\<close>: an empty description is replaced by the name of the type.\<close>

definition Event_init :: "int \<Rightarrow> EventType \<Rightarrow> 'a \<Rightarrow> string \<Rightarrow> 'a Event" where
  "Event_init s t a d =
     \<lparr>step = s, event_type = t, action = a,
      description = (if d \<noteq> [] then d else ''Event type '' @ EventType_name t),
      triggered = False\<rparr>"

text \<open>
  Class \<^verbatim>\<open>EventManager\<close>: \<open>env_now\<close> is \<^verbatim>\<open>self.env.now\<close>, the clock of the SimPy
  environment the manager was built with; \<open>event_queue\<close> is the list of the source.
  \<open>invoked\<close> is an observation, not a field of the source: the events whose action has
  been called, in the order of the calls. \<open>log\<close> is the log of the module.
\<close>

record 'a EventManager =
  env_now :: int
  event_queue :: "'a Event list"
  invoked :: "'a Event list"
  log :: "log_record list"

definition EventManager_init :: "int \<Rightarrow> 'a EventManager" where
  "EventManager_init n =
     \<lparr>env_now = n, event_queue = [], invoked = [],
      log = [(INFO, ''EventManager initialized.'')]\<rparr>"

text \<open>
  \<^verbatim>\<open>Event.trigger\<close>. The parameter \<open>raises\<close> tells for each callable whether calling it
  raises an \<^verbatim>\<open>Exception\<close>; the flag \<open>triggered\<close> is set only when it does not.
  The result is the event after the call and the manager with the call observed.
\<close>

definition trigger :: "('a \<Rightarrow> bool) \<Rightarrow> 'a Event \<Rightarrow> 'a EventManager \<Rightarrow> 'a Event \<times> 'a EventManager" where
  "trigger raises e em =
     (if \<not> triggered e then
        (if raises (action e)
         then (e, em\<lparr>invoked := invoked em @ [e],
                      log := log em @ [(INFO, ''Triggering event: '' @ description e),
                                       (ERROR, ''Error executing event action for '' @ description e)]\<rparr>)
         else (e\<lparr>triggered := True\<rparr>,
               em\<lparr>invoked := invoked em @ [e],
                  log := log em @ [(INFO, ''Triggering event: '' @ description e)]\<rparr>))
      else (e, em\<lparr>log := log em @ [(WARNING, ''Event attempted to trigger multiple times: '' @ description e)]\<rparr>))"

text \<open>
  \<^verbatim>\<open>EventManager.schedule_event\<close>. \<^verbatim>\<open>list.sort()\<close> is a stable sort and
  \<^verbatim>\<open>Event.__lt__\<close> compares the steps only, so the queue after the call is the stable
  sort by step of the queue with the new event appended.
\<close>

definition schedule_event :: "int \<Rightarrow> EventType \<Rightarrow> 'a \<Rightarrow> string \<Rightarrow> 'a EventManager \<Rightarrow> 'a EventManager" where
  "schedule_event s t a d em =
     (if s < env_now em
      then em\<lparr>log := log em @ [(WARNING, ''Attempted to schedule event for past step. Skipping: '' @ d)]\<rparr>
      else em\<lparr>event_queue := sort_key step (event_queue em @ [Event_init s t a d]),
              log := log em @ [(DEBUG, ''Scheduled event: '' @ description (Event_init s t a d))]\<rparr>)"

text \<open>
  \<^verbatim>\<open>EventManager.process_events\<close>. The first loop splits the queue into
  \<^verbatim>\<open>events_to_trigger_now\<close> and \<^verbatim>\<open>remaining_events\<close>; the second loop triggers the
  former in order and counts them.
\<close>

fun split_queue :: "int \<Rightarrow> 'a Event list \<Rightarrow> 'a Event list \<times> 'a Event list" where
  "split_queue current_step [] = ([], [])"
| "split_queue current_step (e # es) =
     (let (events_to_trigger_now, remaining_events) = split_queue current_step es
      in if step e = current_step \<and> \<not> triggered e
         then (e # events_to_trigger_now, remaining_events)
         else (events_to_trigger_now, e # remaining_events))"

fun trigger_loop :: "('a \<Rightarrow> bool) \<Rightarrow> 'a Event list \<Rightarrow> nat \<Rightarrow> 'a EventManager \<Rightarrow> nat \<times> 'a EventManager" where
  "trigger_loop raises [] triggered_count em = (triggered_count, em)"
| "trigger_loop raises (e # es) triggered_count em =
     trigger_loop raises es (triggered_count + 1) (snd (trigger raises e em))"

definition process_events :: "('a \<Rightarrow> bool) \<Rightarrow> int \<Rightarrow> 'a EventManager \<Rightarrow> nat \<times> 'a EventManager" where
  "process_events raises current_step em =
     (let (events_to_trigger_now, remaining_events) = split_queue current_step (event_queue em);
          em1 = em\<lparr>event_queue := remaining_events\<rparr>
      in if events_to_trigger_now \<noteq> []
         then trigger_loop raises events_to_trigger_now 0
                (em1\<lparr>log := log em1 @ [(INFO, ''Processing events for step'')]\<rparr>)
         else (0, em1))"

text \<open>
  A client of the manager schedules events, processes a step, or lets the clock of the
  environment advance by one (\<^verbatim>\<open>yield env.timeout(1)\<close>); a session is a list of such
  calls.
\<close>

datatype 'a em_request = Schedule int EventType 'a string | Process int | Timeout

fun em_call :: "('a \<Rightarrow> bool) \<Rightarrow> 'a em_request \<Rightarrow> 'a EventManager \<Rightarrow> 'a EventManager" where
  "em_call raises (Schedule s t a d) em = schedule_event s t a d em"
| "em_call raises (Process current_step) em = snd (process_events raises current_step em)"
| "em_call raises Timeout em = em\<lparr>env_now := env_now em + 1\<rparr>"

fun em_calls :: "('a \<Rightarrow> bool) \<Rightarrow> 'a em_request list \<Rightarrow> 'a EventManager \<Rightarrow> 'a EventManager" where
  "em_calls raises [] em = em"
| "em_calls raises (c # cs) em = em_calls raises cs (em_call raises c em)"

fun processed_steps :: "'a em_request list \<Rightarrow> int list" where
  "processed_steps [] = []"
| "processed_steps (Process current_step # cs) = current_step # processed_steps cs"
| "processed_steps (c # cs) = processed_steps cs"

text \<open>
  The events of a session that \<^verbatim>\<open>schedule_event\<close> does not skip, in the order of the
  calls; \<open>n\<close> is the clock of the environment when the session starts.
\<close>

fun accepted :: "int \<Rightarrow> 'a em_request list \<Rightarrow> 'a Event list" where
  "accepted n [] = []"
| "accepted n (Schedule s t a d # cs) =
     (if s < n then accepted n cs else Event_init s t a d # accepted n cs)"
| "accepted n (Timeout # cs) = accepted (n + 1) cs"
| "accepted n (Process current_step # cs) = accepted n cs"

section \<open>Agents (agents/base\_agent.py, agents/disruption\_agent.py and siblings)\<close>

text \<open>
  The exceptions the modelled code raises, all of them instances of \<^verbatim>\<open>Exception\<close>,
  the class that the handlers of the event manager and of the simulation loop catch.
  A call of \<^verbatim>\<open>agent.step\<close> is modelled by its result: the agent after the call (a
  step that raises keeps what it had changed before), the exception it raised if any,
  and whether it called \<^verbatim>\<open>SimulationEngine.stop\<close> through its reference to the
  engine.
\<close>

datatype exn = NotImplementedError | AttributeError string

record 'ag step_result =
  agent_after :: 'ag
  raised :: "exn option"
  stop_called :: bool

text \<open>
  The configuration keys \<^verbatim>\<open>DisruptionAgent.__init__\<close> reads; a key that is absent is
  \<open>None\<close>. The magnitude is only written to the log and is left out.
\<close>

record DisruptionConfig =
  cfg_disruption_type :: "string option"
  cfg_duration :: "int option"
  cfg_target_scope :: "string option"
  cfg_start_step :: "int option"

datatype impact = APPLY_IMPACT | REMOVE_IMPACT

text \<open>
  Class \<^verbatim>\<open>DisruptionAgent\<close>. The attribute \<^verbatim>\<open>duration_remaining\<close> does not exist
  until the first activation assigns it, hence the option. \<open>impact_calls\<close> is an
  observation: the calls of \<^verbatim>\<open>apply_impact\<close> and \<^verbatim>\<open>remove_impact\<close> with the step
  they were given, in order. Both methods are placeholders that write one warning.
\<close>

record DisruptionAgent =
  agent_id :: string
  disruption_type :: string
  duration :: int
  target_scope :: string
  start_step :: int
  active :: bool
  duration_remaining :: "int option"
  impact_calls :: "(impact \<times> int) list"
  agent_log :: "log_record list"

text \<open>
  \<^verbatim>\<open>BaseAgent.__init__\<close> keeps the id it is given unless that is falsy
  (\<^verbatim>\<open>None\<close> or the empty string, both the empty string here); then the id is
  \<^verbatim>\<open>str(uuid.uuid4())\<close>, whose value is the parameter \<open>uuid4\<close>.
\<close>

definition BaseAgent_init :: "string \<Rightarrow> string \<Rightarrow> string" where
  "BaseAgent_init uuid4 aid = (if aid \<noteq> [] then aid else uuid4)"

definition DisruptionAgent_init :: "string \<Rightarrow> string \<Rightarrow> DisruptionConfig \<Rightarrow> DisruptionAgent" where
  "DisruptionAgent_init uuid4 aid config =
     \<lparr>agent_id = BaseAgent_init uuid4 aid,
      disruption_type = (case cfg_disruption_type config of None \<Rightarrow> ''GenericDisruption'' | Some v \<Rightarrow> v),
      duration = (case cfg_duration config of None \<Rightarrow> 1 | Some v \<Rightarrow> v),
      target_scope = (case cfg_target_scope config of None \<Rightarrow> ''all'' | Some v \<Rightarrow> v),
      start_step = (case cfg_start_step config of None \<Rightarrow> - 1 | Some v \<Rightarrow> v),
      active = False,
      duration_remaining = None,
      impact_calls = [],
      agent_log = [(INFO, ''DisruptionAgent initialized: '' @ BaseAgent_init uuid4 aid)]\<rparr>"

definition apply_impact :: "int \<Rightarrow> DisruptionAgent \<Rightarrow> DisruptionAgent" where
  "apply_impact current_step ag =
     ag\<lparr>impact_calls := impact_calls ag @ [(APPLY_IMPACT, current_step)],
        agent_log := agent_log ag @
          [(WARNING, ''apply_impact: actual impact logic not yet implemented: '' @ agent_id ag)]\<rparr>"

definition remove_impact :: "int \<Rightarrow> DisruptionAgent \<Rightarrow> DisruptionAgent" where
  "remove_impact current_step ag =
     ag\<lparr>impact_calls := impact_calls ag @ [(REMOVE_IMPACT, current_step)],
        agent_log := agent_log ag @
          [(WARNING, ''remove_impact: actual removal logic not yet implemented: '' @ agent_id ag)]\<rparr>"

text \<open>\<^verbatim>\<open>DisruptionAgent.step\<close>, branch by branch.\<close>

definition DisruptionAgent_step :: "int \<Rightarrow> DisruptionAgent \<Rightarrow> DisruptionAgent step_result" where
  "DisruptionAgent_step current_step ag =
     (if \<not> active ag \<and> start_step ag \<ge> 0 \<and> current_step \<ge> start_step ag then
        \<lparr>agent_after =
           apply_impact current_step
             (ag\<lparr>active := True, duration_remaining := Some (duration ag),
                 agent_log := agent_log ag @ [(INFO, ''Disruption now ACTIVE: '' @ agent_id ag)]\<rparr>),
         raised = None, stop_called = False\<rparr>
      else if active ag then
        (case duration_remaining ag of
           None \<Rightarrow> \<lparr>agent_after = ag, raised = Some (AttributeError ''duration_remaining''),
                     stop_called = False\<rparr>
         | Some r \<Rightarrow>
             if r > 0 then
               \<lparr>agent_after =
                  ag\<lparr>duration_remaining := Some (r - 1),
                     agent_log := agent_log ag @ [(DEBUG, ''Disruption ongoing: '' @ agent_id ag)]\<rparr>,
                raised = None, stop_called = False\<rparr>
             else
               \<lparr>agent_after =
                  remove_impact current_step
                    (ag\<lparr>active := False,
                        agent_log := agent_log ag @ [(INFO, ''Disruption has ENDED: '' @ agent_id ag)]\<rparr>),
                raised = None, stop_called = False\<rparr>)
      else \<lparr>agent_after = ag, raised = None, stop_called = False\<rparr>)"

text \<open>
  The caller of the claims: \<^verbatim>\<open>step(t)\<close> for each \<open>t\<close> of a list in turn, on the agent
  the previous call left.
\<close>

fun DisruptionAgent_steps :: "int list \<Rightarrow> DisruptionAgent \<Rightarrow> DisruptionAgent" where
  "DisruptionAgent_steps [] ag = ag"
| "DisruptionAgent_steps (t # ts) ag =
     DisruptionAgent_steps ts (agent_after (DisruptionAgent_step t ag))"

text \<open>
  The agent classes of the repository. \<^verbatim>\<open>BaseAgent.step\<close> raises
  \<^verbatim>\<open>NotImplementedError\<close>; the steps of \<^verbatim>\<open>ExportSectorAgent\<close>,
  \<^verbatim>\<open>LogisticsAgent\<close> and \<^verbatim>\<open>MarketAgent\<close> call placeholders whose body is
  \<^verbatim>\<open>pass\<close>, so these agents are modelled by their \<^verbatim>\<open>agent_id\<close> alone.
\<close>

datatype agent =
    BaseAgent string
  | ExportSectorAgent string
  | LogisticsAgent string
  | MarketAgent string
  | Disruption DisruptionAgent

fun agent_id_of :: "agent \<Rightarrow> string" where
  "agent_id_of (BaseAgent aid) = aid"
| "agent_id_of (ExportSectorAgent aid) = aid"
| "agent_id_of (LogisticsAgent aid) = aid"
| "agent_id_of (MarketAgent aid) = aid"
| "agent_id_of (Disruption ag) = agent_id ag"

fun agent_step :: "int \<Rightarrow> agent \<Rightarrow> agent step_result" where
  "agent_step current_step (BaseAgent aid) =
     \<lparr>agent_after = BaseAgent aid, raised = Some NotImplementedError, stop_called = False\<rparr>"
| "agent_step current_step (ExportSectorAgent aid) =
     \<lparr>agent_after = ExportSectorAgent aid, raised = None, stop_called = False\<rparr>"
| "agent_step current_step (LogisticsAgent aid) =
     \<lparr>agent_after = LogisticsAgent aid, raised = None, stop_called = False\<rparr>"
| "agent_step current_step (MarketAgent aid) =
     \<lparr>agent_after = MarketAgent aid, raised = None, stop_called = False\<rparr>"
| "agent_step current_step (Disruption ag) =
     (let r = DisruptionAgent_step current_step ag
      in \<lparr>agent_after = Disruption (agent_after r), raised = raised r,
          stop_called = stop_called r\<rparr>)"

section \<open>Dictionaries\<close>

text \<open>
  A Python \<^verbatim>\<open>dict\<close> keeps its keys in insertion order, so it is an association list
  with distinct keys: \<^verbatim>\<open>d.get(k)\<close> is \<open>map_of d k\<close>, \<^verbatim>\<open>k in d\<close> is \<open>dict_has\<close>,
  and \<^verbatim>\<open>d[k] = v\<close> replaces the value of a key in place or appends a new key.
\<close>

definition dict_has :: "('k \<times> 'v) list \<Rightarrow> 'k \<Rightarrow> bool" where
  "dict_has d k = (map_of d k \<noteq> None)"

fun dict_set :: "('k \<times> 'v) list \<Rightarrow> 'k \<Rightarrow> 'v \<Rightarrow> ('k \<times> 'v) list" where
  "dict_set [] k v = [(k, v)]"
| "dict_set ((k', v') # d) k v = (if k' = k then (k, v) # d else (k', v') # dict_set d k v)"

section \<open>The simulation engine (simulation\_core/engine.py)\<close>

text \<open>
  Class \<^verbatim>\<open>SimulationEngine\<close>, for agents of any type \<open>'ag\<close>. \<open>total_steps_config\<close> is
  the entry \<^verbatim>\<open>total_steps\<close> of the simulation settings, \<open>None\<close> when the key is absent.
  The clock of \<^verbatim>\<open>self.env\<close> is the field \<open>env_now\<close> of the event manager, which
  shares the environment. \<open>step_calls\<close> is an observation: the calls of
  \<^verbatim>\<open>agent.step\<close> made by the loop, as pairs of the agent's id and the step passed.
\<close>

record ('ag, 'a) SimulationEngine =
  total_steps_config :: "int option"
  event_manager :: "'a EventManager"
  agents :: "'ag list"
  current_step :: int
  running :: bool
  results :: "(string \<times> int) list"
  step_calls :: "(string \<times> int) list"
  engine_log :: "log_record list"

definition SimulationEngine_init :: "int option \<Rightarrow> ('ag, 'a) SimulationEngine" where
  "SimulationEngine_init total_steps_setting =
     \<lparr>total_steps_config = total_steps_setting,
      event_manager = EventManager_init 0,
      agents = [],
      current_step = 0,
      running = False,
      results = [],
      step_calls = [],
      engine_log = [(INFO, ''SimulationEngine initialized'')]\<rparr>"

definition register_agent :: "('ag \<Rightarrow> string) \<Rightarrow> 'ag \<Rightarrow> ('ag, 'a) SimulationEngine \<Rightarrow> ('ag, 'a) SimulationEngine" where
  "register_agent aid ag eng =
     eng\<lparr>agents := agents eng @ [ag],
         engine_log := engine_log eng @ [(DEBUG, ''Agent registered: '' @ aid ag)]\<rparr>"

definition stop :: "('ag, 'a) SimulationEngine \<Rightarrow> ('ag, 'a) SimulationEngine" where
  "stop eng =
     (if running eng
      then eng\<lparr>running := False,
               engine_log := engine_log eng @ [(INFO, ''Stop signal received.'')]\<rparr>
      else eng)"

text \<open>\<^verbatim>\<open>sim_settings.get("total_steps", 100)\<close> and \<^verbatim>\<open>range(total_steps)\<close>.\<close>

definition total_steps :: "('ag, 'a) SimulationEngine \<Rightarrow> int" where
  "total_steps eng = (case total_steps_config eng of None \<Rightarrow> 100 | Some n \<Rightarrow> n)"

definition py_range :: "int \<Rightarrow> int list" where
  "py_range n = [0..n - 1]"

text \<open>
  The inner loop of \<^verbatim>\<open>_simulation_loop\<close>: every agent of the list is stepped inside
  its own \<^verbatim>\<open>try\<close> (\<open>try_step\<close>); an exception is logged under the agent's id and
  the loop goes on.
  The parameters \<open>astep\<close> and \<open>aid\<close> are the method \<^verbatim>\<open>step\<close> and the attribute
  \<^verbatim>\<open>agent_id\<close> of the agents' class.
\<close>

definition try_step ::
  "(int \<Rightarrow> 'ag \<Rightarrow> 'ag step_result) \<Rightarrow> ('ag \<Rightarrow> string) \<Rightarrow> 'ag \<Rightarrow>
   ('ag, 'a) SimulationEngine \<Rightarrow> 'ag \<times> ('ag, 'a) SimulationEngine" where
  "try_step astep aid ag eng =
     (let r = astep (current_step eng) ag;
          eng1 = eng\<lparr>step_calls := step_calls eng @ [(aid ag, current_step eng)]\<rparr>;
          eng2 = (if stop_called r then stop eng1 else eng1)
      in (agent_after r,
          (case raised r of
             None \<Rightarrow> eng2
           | Some e \<Rightarrow>
               eng2\<lparr>engine_log := engine_log eng2 @
                 [(ERROR, ''Error during step for agent '' @ aid ag)]\<rparr>)))"

fun step_agents ::
  "(int \<Rightarrow> 'ag \<Rightarrow> 'ag step_result) \<Rightarrow> ('ag \<Rightarrow> string) \<Rightarrow> 'ag list \<Rightarrow>
   ('ag, 'a) SimulationEngine \<Rightarrow> 'ag list \<times> ('ag, 'a) SimulationEngine" where
  "step_agents astep aid [] eng = ([], eng)"
| "step_agents astep aid (ag # ags) eng =
     (let (ag', eng1) = try_step astep aid ag eng;
          (ags', eng2) = step_agents astep aid ags eng1
      in (ag' # ags', eng2))"

text \<open>
  One iteration of the outer loop, up to and including \<^verbatim>\<open>yield self.env.timeout(1)\<close>,
  which lets the clock of the environment advance by one.
  \<^verbatim>\<open>_collect_step_metrics\<close> is \<^verbatim>\<open>pass\<close>.
\<close>

definition simulation_day ::
  "('a \<Rightarrow> bool) \<Rightarrow> (int \<Rightarrow> 'ag \<Rightarrow> 'ag step_result) \<Rightarrow> ('ag \<Rightarrow> string) \<Rightarrow> int \<Rightarrow>
   ('ag, 'a) SimulationEngine \<Rightarrow> ('ag, 'a) SimulationEngine" where
  "simulation_day raises astep aid day eng =
     (let eng1 = eng\<lparr>current_step := day,
                     engine_log := engine_log eng @ [(INFO, ''--- Simulation Day ---'')]\<rparr>;
          eng2 = eng1\<lparr>event_manager :=
                   snd (process_events raises (current_step eng1) (event_manager eng1))\<rparr>;
          (ags, eng3) = step_agents astep aid (agents eng2) eng2;
          eng4 = eng3\<lparr>agents := ags\<rparr>
      in eng4\<lparr>event_manager :=
                (event_manager eng4)\<lparr>env_now := env_now (event_manager eng4) + 1\<rparr>\<rparr>)"

text \<open>The outer loop over \<^verbatim>\<open>range(total_steps)\<close>, with its \<^verbatim>\<open>break\<close>.\<close>

fun days_loop ::
  "('a \<Rightarrow> bool) \<Rightarrow> (int \<Rightarrow> 'ag \<Rightarrow> 'ag step_result) \<Rightarrow> ('ag \<Rightarrow> string) \<Rightarrow> int list \<Rightarrow>
   ('ag, 'a) SimulationEngine \<Rightarrow> ('ag, 'a) SimulationEngine" where
  "days_loop raises astep aid [] eng = eng"
| "days_loop raises astep aid (day # days) eng =
     (let eng1 = simulation_day raises astep aid day eng
      in if \<not> running eng1
         then eng1\<lparr>engine_log := engine_log eng1 @ [(INFO, ''Simulation run terminated early.'')]\<rparr>
         else days_loop raises astep aid days eng1)"

definition collect_final_results :: "('ag, 'a) SimulationEngine \<Rightarrow> ('ag, 'a) SimulationEngine" where
  "collect_final_results eng =
     (let r1 = dict_set (results eng) ''total_simulation_days'' (current_step eng + 1);
          r2 = dict_set r1 ''total_agents'' (int (length (agents eng)))
      in eng\<lparr>results := r2,
             engine_log := engine_log eng @ [(INFO, ''Collecting final simulation results...''),
                                              (INFO, ''Final results'')]\<rparr>)"

definition simulation_loop ::
  "('a \<Rightarrow> bool) \<Rightarrow> (int \<Rightarrow> 'ag \<Rightarrow> 'ag step_result) \<Rightarrow> ('ag \<Rightarrow> string) \<Rightarrow>
   ('ag, 'a) SimulationEngine \<Rightarrow> ('ag, 'a) SimulationEngine" where
  "simulation_loop raises astep aid eng =
     (let eng1 = eng\<lparr>running := True,
                     engine_log := engine_log eng @ [(INFO, ''Simulation starting.'')]\<rparr>;
          eng2 = days_loop raises astep aid (py_range (total_steps eng1)) eng1;
          eng3 = eng2\<lparr>running := False,
                     engine_log := engine_log eng2 @ [(INFO, ''Simulation finished.'')]\<rparr>
      in collect_final_results eng3)"

text \<open>
  \<^verbatim>\<open>run_simulation\<close>: the value returned and the engine after the call. With no agent
  registered it returns a fresh empty dictionary and runs nothing.
\<close>

definition run_simulation ::
  "('a \<Rightarrow> bool) \<Rightarrow> (int \<Rightarrow> 'ag \<Rightarrow> 'ag step_result) \<Rightarrow> ('ag \<Rightarrow> string) \<Rightarrow>
   ('ag, 'a) SimulationEngine \<Rightarrow> (string \<times> int) list \<times> ('ag, 'a) SimulationEngine" where
  "run_simulation raises astep aid eng =
     (if agents eng = []
      then ([], eng\<lparr>engine_log := engine_log eng @
                       [(ERROR, ''No agents registered. Aborting simulation.'')]\<rparr>)
      else (let eng1 = simulation_loop raises astep aid eng in (results eng1, eng1)))"

section \<open>The supply chain network (supply\_chain\_network/network\_model.py)\<close>

text \<open>
  A node object as \<^verbatim>\<open>SupplyChainNetwork\<close> reads it: the \<^verbatim>\<open>id\<close> and \<^verbatim>\<open>name\<close> of
  \<^verbatim>\<open>BaseNode\<close> and the \<^verbatim>\<open>operational_status\<close> its subclasses add.
\<close>

record Node =
  node_id :: string
  node_name :: string
  node_type :: string
  operational_status :: string

text \<open>
  Class \<^verbatim>\<open>Edge\<close> of edges.py, the class network\_model.py imports: the attributes
  that \<^verbatim>\<open>Edge.__init__\<close> sets (\<open>edge_type\<close> is the attribute \<^verbatim>\<open>type\<close>). The
  numeric attributes \<^verbatim>\<open>capacity\<close>, \<^verbatim>\<open>travel_time_hours\<close>, \<^verbatim>\<open>cost_per_unit\<close> and
  \<^verbatim>\<open>current_flow\<close> are floating-point numbers that the network never reads; they are
  left out. An edge has no attribute \<^verbatim>\<open>id\<close>, \<^verbatim>\<open>source_node\<close> or
  \<^verbatim>\<open>destination_node\<close>.
\<close>

record Edge =
  source_id :: string
  target_id :: string
  edge_type :: string
  attributes :: "(string \<times> string) list"
  is_active :: bool






text \<open>
  Class \<^verbatim>\<open>SupplyChainNetwork\<close>: the two lookup dictionaries, and the adjacency structure
  \<^verbatim>\<open>self.graph\<close> (a multi-edge directed graph) as the two tables it is written to here:
  the data stored per node id, and the data stored per source, target and edge key.
\<close>

record SupplyChainNetwork =
  nodes_dict :: "(string \<times> Node) list"
  edges_dict :: "(string \<times> Edge) list"
  graph_nodes :: "(string \<times> Node) list"
  graph_edges :: "((string \<times> string \<times> string) \<times> Edge) list"
  net_log :: "log_record list"

definition SupplyChainNetwork_init :: SupplyChainNetwork where
  "SupplyChainNetwork_init =
     \<lparr>nodes_dict = [], edges_dict = [], graph_nodes = [], graph_edges = [],
      net_log = [(INFO, ''SupplyChainNetwork initialized.'')]\<rparr>"

text \<open>
  A call is modelled by the exception it raised, \<open>None\<close> when it returned, and the
  network after it. \<^verbatim>\<open>add_node_object\<close> and \<^verbatim>\<open>add_edge_object\<close> have no
  \<^verbatim>\<open>raise\<close> and no \<^verbatim>\<open>try\<close>, and every \<^verbatim>\<open>return\<close> of theirs returns
  \<^verbatim>\<open>None\<close>: the only exception that leaves them is that of a failed attribute lookup.
\<close>

definition add_node_object :: "Node \<Rightarrow> SupplyChainNetwork \<Rightarrow> exn option \<times> SupplyChainNetwork" where
  "add_node_object node_obj net =
     (if dict_has (nodes_dict net) (node_id node_obj)
      then (None, net\<lparr>net_log := net_log net @
              [(WARNING, ''Node already exists. Skipping addition: '' @ node_id node_obj)]\<rparr>)
      else (None, net\<lparr>nodes_dict := dict_set (nodes_dict net) (node_id node_obj) node_obj,
                      graph_nodes := dict_set (graph_nodes net) (node_id node_obj) node_obj,
                      net_log := net_log net @
                        [(DEBUG, ''Added node to network: '' @ node_id node_obj)]\<rparr>))"


definition get_node :: "SupplyChainNetwork \<Rightarrow> string \<Rightarrow> Node option" where
  "get_node net nid = map_of (nodes_dict net) nid"

text \<open>
  \<^verbatim>\<open>node.update_status(new_status, details)\<close>. Neither \<^verbatim>\<open>BaseNode\<close> nor any of its
  subclasses in nodes.py defines a method or attribute of that name, so the lookup of
  the attribute raises \<^verbatim>\<open>AttributeError\<close> and the node is not touched.
\<close>

definition update_status :: "string \<Rightarrow> (string \<times> string) list \<Rightarrow> Node \<Rightarrow> exn + Node" where
  "update_status new_status disruption_details node = Inl (AttributeError ''update_status'')"

text \<open>
  \<^verbatim>\<open>apply_disruption_to_node\<close>. It has no \<^verbatim>\<open>try\<close>: an exception of
  \<^verbatim>\<open>update_status\<close> leaves the call before the line that logs the disruption.
  The repository defines no operation that clears a disruption.
\<close>

definition apply_disruption_to_node ::
  "string \<Rightarrow> (string \<times> string) list \<Rightarrow> SupplyChainNetwork \<Rightarrow> exn option \<times> SupplyChainNetwork" where
  "apply_disruption_to_node nid disruption_details net =
     (case get_node net nid of
        Some node \<Rightarrow>
          (case update_status ''DISRUPTED'' disruption_details node of
             Inl e \<Rightarrow> (Some e, net)
           | Inr node' \<Rightarrow>
               (None, net\<lparr>nodes_dict := dict_set (nodes_dict net) nid node',
                          graph_nodes := dict_set (graph_nodes net) nid node',
                          net_log := net_log net @ [(INFO, ''Applied disruption to node '' @ nid)]\<rparr>))
      | None \<Rightarrow>
          (None, net\<lparr>net_log := net_log net @
             [(WARNING, ''Cannot apply disruption: Node not found: '' @ nid)]\<rparr>))"

section \<open>Example inputs\<close>

definition example_disruption_agent :: DisruptionAgent where
  "example_disruption_agent =
     DisruptionAgent_init ''00000000-0000-4000-8000-000000000000'' ''DisruptionAgent_1''
       \<lparr>cfg_disruption_type = None, cfg_duration = Some 3, cfg_target_scope = None,
        cfg_start_step = Some 5\<rparr>"

definition example_engine :: "int \<Rightarrow> (agent, unit) SimulationEngine" where
  "example_engine n =
     register_agent agent_id_of (ExportSectorAgent ''ExportAgent_F1'')
       (register_agent agent_id_of (BaseAgent ''Base_1'') (SimulationEngine_init (Some n)))"

definition example_node :: "string \<Rightarrow> Node" where
  "example_node nid =
     \<lparr>node_id = nid, node_name = ''Port '' @ nid, node_type = ''Port'',
      operational_status = ''OPERATIONAL''\<rparr>"


definition example_network :: SupplyChainNetwork where
  "example_network =
     snd (add_node_object (example_node ''B'')
       (snd (add_node_object (example_node ''A'') SupplyChainNetwork_init)))"

section \<open>Properties of the event manager\<close>

subsection \<open>What \<open>process_events\<close> and \<open>schedule_event\<close> do to each field\<close>

lemma split_queue_filter:
  "split_queue t q =
     (filter (\<lambda>e. step e = t \<and> \<not> triggered e) q,
      filter (\<lambda>e. \<not> (step e = t \<and> \<not> triggered e)) q)"
  by (induction q) auto

lemma trigger_fields:
  "event_queue (snd (trigger raises e em)) = event_queue em"
  "env_now (snd (trigger raises e em)) = env_now em"
  "invoked (snd (trigger raises e em)) = invoked em @ (if triggered e then [] else [e])"
  by (simp_all add: trigger_def)

lemma trigger_loop_queue:
  "event_queue (snd (trigger_loop raises es n em)) = event_queue em"
  by (induction es arbitrary: n em) (simp_all add: trigger_fields)

lemma trigger_loop_now:
  "env_now (snd (trigger_loop raises es n em)) = env_now em"
  by (induction es arbitrary: n em) (simp_all add: trigger_fields)

lemma trigger_loop_invoked:
  "invoked (snd (trigger_loop raises es n em)) = invoked em @ filter (\<lambda>e. \<not> triggered e) es"
  by (induction es arbitrary: n em) (simp_all add: trigger_fields)

lemma trigger_loop_count:
  "fst (trigger_loop raises es n em) = n + length es"
  by (induction es arbitrary: n em) simp_all

lemma process_events_queue:
  "event_queue (snd (process_events raises t em)) =
     filter (\<lambda>e. \<not> (step e = t \<and> \<not> triggered e)) (event_queue em)"
  by (simp add: process_events_def split_queue_filter trigger_loop_queue Let_def)

lemma process_events_now:
  "env_now (snd (process_events raises t em)) = env_now em"
  by (simp add: process_events_def split_queue_filter trigger_loop_now Let_def)

lemma filter_untriggered_due:
  "filter (\<lambda>e. \<not> triggered e) (filter (\<lambda>e. step e = t \<and> \<not> triggered e) q) =
   filter (\<lambda>e. step e = t \<and> \<not> triggered e) q"
  by (induction q) auto

lemma process_events_invoked:
  "invoked (snd (process_events raises t em)) =
     invoked em @ filter (\<lambda>e. step e = t \<and> \<not> triggered e) (event_queue em)"
  by (simp add: process_events_def split_queue_filter trigger_loop_invoked Let_def
        filter_untriggered_due)

lemma process_events_count:
  "fst (process_events raises t em) =
     length (filter (\<lambda>e. step e = t \<and> \<not> triggered e) (event_queue em))"
  by (simp add: process_events_def split_queue_filter trigger_loop_count Let_def)

lemma filter_due_split:
  "filter (\<lambda>e. step e = t \<and> \<not> triggered e) xs =
   filter (\<lambda>e. \<not> triggered e) (filter (\<lambda>e. step e = t) xs)"
  by (induction xs) auto

lemma due_sort_key:
  "filter (\<lambda>e. step e = t \<and> \<not> triggered e) (sort_key step q) =
   filter (\<lambda>e. step e = t \<and> \<not> triggered e) q"
proof -
  have "filter (\<lambda>e. step e = t \<and> \<not> triggered e) (sort_key step q) =
        filter (\<lambda>e. \<not> triggered e) (filter (\<lambda>e. step e = t) (sort_key step q))"
    by (rule filter_due_split)
  also have "\<dots> = filter (\<lambda>e. \<not> triggered e) (filter (\<lambda>e. step e = t) q)"
    by (simp only: sort_key_stable)
  also have "\<dots> = filter (\<lambda>e. step e = t \<and> \<not> triggered e) q"
    by (rule filter_due_split [symmetric])
  finally show ?thesis .
qed

lemma schedule_event_fields:
  "env_now (schedule_event s t a d em) = env_now em"
  "invoked (schedule_event s t a d em) = invoked em"
  "event_queue (schedule_event s t a d em) =
     (if s < env_now em then event_queue em
      else sort_key step (event_queue em @ [Event_init s t a d]))"
  by (simp_all add: schedule_event_def)

lemma em_call_fields:
  "env_now (em_call raises c em) = (case c of Timeout \<Rightarrow> env_now em + 1 | _ \<Rightarrow> env_now em)"
  "invoked (em_call raises c em) =
     (case c of Process u \<Rightarrow> invoked em @ filter (\<lambda>e. step e = u \<and> \<not> triggered e) (event_queue em)
      | _ \<Rightarrow> invoked em)"
  "event_queue (em_call raises c em) =
     (case c of
        Schedule s t a d \<Rightarrow>
          (if s < env_now em then event_queue em
           else sort_key step (event_queue em @ [Event_init s t a d]))
      | Process u \<Rightarrow> filter (\<lambda>e. \<not> (step e = u \<and> \<not> triggered e)) (event_queue em)
      | Timeout \<Rightarrow> event_queue em)"
  by (cases c; simp add: schedule_event_fields process_events_now process_events_invoked
        process_events_queue)+

lemma em_calls_same:
  "env_now em = env_now em' \<Longrightarrow> event_queue em = event_queue em' \<Longrightarrow> invoked em = invoked em' \<Longrightarrow>
   env_now (em_calls raises cs em) = env_now (em_calls raises cs em') \<and>
   event_queue (em_calls raises cs em) = event_queue (em_calls raises cs em') \<and>
   invoked (em_calls raises cs em) = invoked (em_calls raises cs em')"
proof (induction cs arbitrary: em em')
  case Nil
  then show ?case by simp
next
  case (Cons c cs)
  show ?case
    unfolding em_calls.simps
    by (rule Cons.IH) (simp_all add: em_call_fields Cons.prems split: em_request.splits)
qed

lemma em_call_keeps:
  assumes "e \<in> set (event_queue em)" "e \<notin> set (invoked em)"
    and "\<forall>u \<in> set (processed_steps [c]). step e < u"
  shows "e \<in> set (event_queue (em_call raises c em)) \<and> e \<notin> set (invoked (em_call raises c em))"
  using assms by (cases c) (auto simp: schedule_event_fields process_events_queue process_events_invoked)

lemma processed_steps_Cons:
  "set (processed_steps (c # cs)) = set (processed_steps [c]) \<union> set (processed_steps cs)"
  by (cases c) simp_all

lemma em_calls_keeps:
  assumes "e \<in> set (event_queue em)" "e \<notin> set (invoked em)"
    and "\<forall>u \<in> set (processed_steps cs). step e < u"
  shows "e \<in> set (event_queue (em_calls raises cs em)) \<and> e \<notin> set (invoked (em_calls raises cs em))"
  using assms
proof (induction cs arbitrary: em)
  case Nil
  then show ?case by simp
next
  case (Cons c cs)
  have "e \<in> set (event_queue (em_call raises c em)) \<and> e \<notin> set (invoked (em_call raises c em))"
    using Cons.prems by (intro em_call_keeps) (simp_all add: processed_steps_Cons [of c cs])
  moreover have "\<forall>u \<in> set (processed_steps cs). step e < u"
    using Cons.prems(3) by (simp add: processed_steps_Cons [of c cs])
  ultimately show ?case using Cons.IH by simp
qed

lemma accepted_untriggered: "e \<in> set (accepted n cs) \<Longrightarrow> \<not> triggered e"
  by (induction n cs rule: accepted.induct) (auto simp: Event_init_def split: if_splits)

lemma sorted_em_call:
  "sorted (map step (event_queue em)) \<Longrightarrow> sorted (map step (event_queue (em_call raises c em)))"
  by (cases c) (simp_all add: schedule_event_fields process_events_queue sorted_filter)

lemma sorted_em_calls:
  "sorted (map step (event_queue em)) \<Longrightarrow> sorted (map step (event_queue (em_calls raises cs em)))"
  by (induction cs arbitrary: em) (simp_all add: sorted_em_call)

lemma same_step_sort_key:
  "filter (\<lambda>e. step e = k) (sort_key step q) = filter (\<lambda>e. step e = k) q"
  by (rule sort_key_stable)

lemma queue_em_calls:
  "processed_steps cs = [] \<Longrightarrow>
   filter (\<lambda>e. step e = k) (event_queue (em_calls raises cs em)) =
   filter (\<lambda>e. step e = k) (event_queue em) @ filter (\<lambda>e. step e = k) (accepted (env_now em) cs)"
proof (induction cs arbitrary: em)
  case Nil
  then show ?case by simp
next
  case (Cons c cs)
  show ?case
  proof (cases c)
    case (Schedule s t a d)
    then show ?thesis using Cons
      by (simp add: schedule_event_fields same_step_sort_key)
  next
    case (Process u)
    then show ?thesis using Cons.prems by simp
  next
    case Timeout
    then show ?thesis using Cons by simp
  qed
qed

lemma invoked_em_calls:
  "processed_steps cs = [] \<Longrightarrow> invoked (em_calls raises cs em) = invoked em"
proof (induction cs arbitrary: em)
  case Nil
  then show ?case by simp
next
  case (Cons c cs)
  then show ?case by (cases c) (simp_all add: schedule_event_fields)
qed

lemma no_due_after_process:
  "filter (\<lambda>e. step e = s \<and> \<not> triggered e) (event_queue (snd (process_events raises s em))) = []"
  by (simp add: process_events_queue filter_empty_conv)

lemma no_due_preserved:
  "filter (\<lambda>e. step e = s \<and> \<not> triggered e) (event_queue em) = [] \<Longrightarrow>
   filter (\<lambda>e. step e = s \<and> \<not> triggered e) (event_queue (snd (process_events raises u em))) = []"
  by (simp add: process_events_queue filter_empty_conv)

lemma process_again_invokes_no_same_step:
  "filter (\<lambda>e. step e = s \<and> \<not> triggered e) (event_queue em) = [] \<Longrightarrow>
   filter (\<lambda>e. step e = s) (invoked (em_calls raises (map Process us) em)) =
   filter (\<lambda>e. step e = s) (invoked em)"
proof (induction us arbitrary: em)
  case Nil
  then show ?case by simp
next
  case (Cons u us)
  let ?em1 = "snd (process_events raises u em)"
  have "filter (\<lambda>e. step e = s) (filter (\<lambda>e. step e = u \<and> \<not> triggered e) (event_queue em)) = []"
    using Cons.prems by (auto simp: filter_empty_conv)
  then have "filter (\<lambda>e. step e = s) (invoked ?em1) = filter (\<lambda>e. step e = s) (invoked em)"
    by (simp add: process_events_invoked)
  moreover have "filter (\<lambda>e. step e = s) (invoked (em_calls raises (map Process us) ?em1)) =
                 filter (\<lambda>e. step e = s) (invoked ?em1)"
    by (rule Cons.IH) (rule no_due_preserved [OF Cons.prems])
  ultimately show ?case by simp
qed

subsection \<open>Scheduling and processing\<close>

text \<open>
  Claim C4. For every step \<open>s\<close> that is not before the clock of the environment and every
  type, callable and description, scheduling the event and then processing step \<open>s\<close>
  calls the callable exactly once: the calls made are those that processing \<open>s\<close> makes
  without the new event, followed by one call for the new event, whether or not the
  callable raises. The event has then left the queue; processing step \<open>s\<close> again
  triggers nothing and calls nothing, and no later sequence of \<open>process_events\<close> calls,
  for \<open>s\<close> or for other steps, calls an event of step \<open>s\<close> again.
\<close>

theorem schedule_then_process_fires_once:
  assumes "\<not> s < env_now em"
  shows "invoked (snd (process_events raises s (schedule_event s t a d em))) =
           invoked (snd (process_events raises s em)) @ [Event_init s t a d]
       \<and> action (Event_init s t a d) = a
       \<and> fst (process_events raises s (schedule_event s t a d em)) =
           fst (process_events raises s em) + 1
       \<and> Event_init s t a d \<notin> set (event_queue (snd (process_events raises s (schedule_event s t a d em))))
       \<and> fst (process_events raises s (snd (process_events raises s (schedule_event s t a d em)))) = 0
       \<and> invoked (snd (process_events raises s (snd (process_events raises s (schedule_event s t a d em))))) =
           invoked (snd (process_events raises s (schedule_event s t a d em)))
       \<and> filter (\<lambda>e. step e = s)
           (invoked (em_calls raises (map Process us)
              (snd (process_events raises s (schedule_event s t a d em))))) =
         filter (\<lambda>e. step e = s)
           (invoked (snd (process_events raises s (schedule_event s t a d em))))"
proof -
  let ?e = "Event_init s t a d"
  let ?em1 = "schedule_event s t a d em"
  have q1: "event_queue ?em1 = sort_key step (event_queue em @ [?e])"
    and i1: "invoked ?em1 = invoked em"
    using assms by (simp_all add: schedule_event_def)
  have e: "step ?e = s" "\<not> triggered ?e" "action ?e = a"
    by (simp_all add: Event_init_def)
  have due: "filter (\<lambda>x. step x = s \<and> \<not> triggered x) (event_queue ?em1) =
             filter (\<lambda>x. step x = s \<and> \<not> triggered x) (event_queue em) @ [?e]"
    by (simp add: q1 due_sort_key e)
  have none: "filter (\<lambda>x. step x = s \<and> \<not> triggered x)
                (filter (\<lambda>x. \<not> (step x = s \<and> \<not> triggered x)) q) = []" for q :: "'a Event list"
    by (induction q) auto
  have later: "filter (\<lambda>e. step e = s)
           (invoked (em_calls raises (map Process us) (snd (process_events raises s ?em1)))) =
         filter (\<lambda>e. step e = s) (invoked (snd (process_events raises s ?em1)))"
    by (rule process_again_invokes_no_same_step) (rule no_due_after_process)
  have first: "invoked (snd (process_events raises s ?em1)) =
           invoked (snd (process_events raises s em)) @ [?e]
       \<and> action ?e = a
       \<and> fst (process_events raises s ?em1) = fst (process_events raises s em) + 1
       \<and> ?e \<notin> set (event_queue (snd (process_events raises s ?em1)))
       \<and> fst (process_events raises s (snd (process_events raises s ?em1))) = 0
       \<and> invoked (snd (process_events raises s (snd (process_events raises s ?em1)))) =
           invoked (snd (process_events raises s ?em1))"
    by (simp add: process_events_invoked process_events_count process_events_queue due i1 e none)
  from first later show ?thesis by blast
qed

theorem schedule_then_process_fires_once_witness:
  "\<not> (3::int) < env_now (EventManager_init 0 :: string EventManager)
   \<and> invoked (snd (process_events (\<lambda>a. True) 3
        (schedule_event 3 GENERAL ''act'' ''first'' (EventManager_init 0)))) =
       [Event_init 3 GENERAL ''act'' ''first'']
   \<and> fst (process_events (\<lambda>a. True) 3 (snd (process_events (\<lambda>a. True) 3
        (schedule_event 3 GENERAL ''act'' ''first'' (EventManager_init 0))))) = 0"
proof -
  have h: "\<not> (3::int) < env_now (EventManager_init 0 :: string EventManager)"
    by (simp add: EventManager_init_def)
  have "invoked (snd (process_events (\<lambda>a. True) 3 (EventManager_init 0 :: string EventManager))) = []"
    by (simp add: process_events_invoked EventManager_init_def)
  with h schedule_then_process_fires_once [OF h, of "\<lambda>a. True" GENERAL "''act''" "''first''"] show ?thesis
    by simp
qed

text \<open>
  Claim C6. When the clock of the environment is strictly greater than the step given
  to \<open>schedule_event\<close>, the call only writes one record of level warning: no event is
  inserted, and after any later session of calls (processing any steps, scheduling,
  advancing the clock) the queue and the callables called are those of the same session
  without the rejected call.
\<close>

theorem past_schedule_rejected:
  assumes "s < env_now em"
  shows "schedule_event s t a d em =
           em\<lparr>log := log em @ [(WARNING, ''Attempted to schedule event for past step. Skipping: '' @ d)]\<rparr>
       \<and> event_queue (em_calls raises cs (schedule_event s t a d em)) = event_queue (em_calls raises cs em)
       \<and> invoked (em_calls raises cs (schedule_event s t a d em)) = invoked (em_calls raises cs em)"
proof -
  have "schedule_event s t a d em =
           em\<lparr>log := log em @ [(WARNING, ''Attempted to schedule event for past step. Skipping: '' @ d)]\<rparr>"
    using assms by (simp add: schedule_event_def)
  moreover have "env_now (em_calls raises cs (schedule_event s t a d em)) = env_now (em_calls raises cs em) \<and>
   event_queue (em_calls raises cs (schedule_event s t a d em)) = event_queue (em_calls raises cs em) \<and>
   invoked (em_calls raises cs (schedule_event s t a d em)) = invoked (em_calls raises cs em)"
    by (rule em_calls_same) (simp_all add: schedule_event_fields assms)
  ultimately show ?thesis by blast
qed

theorem past_schedule_rejected_witness:
  "(2::int) < env_now (EventManager_init 5 :: string EventManager)
   \<and> event_queue (em_calls (\<lambda>a. False) [Process 2, Timeout, Process 2]
        (schedule_event 2 GENERAL ''act'' ''late'' (EventManager_init 5))) = []
   \<and> invoked (em_calls (\<lambda>a. False) [Process 2, Timeout, Process 2]
        (schedule_event 2 GENERAL ''act'' ''late'' (EventManager_init 5))) = []"
proof -
  have h: "(2::int) < env_now (EventManager_init 5 :: string EventManager)"
    by (simp add: EventManager_init_def)
  have q: "event_queue (em_calls (\<lambda>a. False) [Process 2, Timeout, Process 2]
          (EventManager_init 5 :: string EventManager)) = []"
    by code_simp
  have i: "invoked (em_calls (\<lambda>a. False) [Process 2, Timeout, Process 2]
          (EventManager_init 5 :: string EventManager)) = []"
    by code_simp
  have r: "event_queue (em_calls (\<lambda>a. False) [Process 2, Timeout, Process 2]
               (schedule_event 2 GENERAL ''act'' ''late'' (EventManager_init 5 :: string EventManager))) =
             event_queue (em_calls (\<lambda>a. False) [Process 2, Timeout, Process 2] (EventManager_init 5))
           \<and> invoked (em_calls (\<lambda>a. False) [Process 2, Timeout, Process 2]
               (schedule_event 2 GENERAL ''act'' ''late'' (EventManager_init 5 :: string EventManager))) =
             invoked (em_calls (\<lambda>a. False) [Process 2, Timeout, Process 2] (EventManager_init 5))"
    by (rule conjunct2 [OF past_schedule_rejected [OF h]])
  show ?thesis
    using r h by (simp only: q i simp_thms)
qed

text \<open>
  Claim C8. For every session of \<open>schedule_event\<close> calls on a new manager (the clock may
  advance between the calls) and every step \<open>T\<close>: the queue is ordered by step, its
  events of step \<open>T\<close> are the accepted events of step \<open>T\<close> in the order in which they
  were scheduled, and processing step \<open>T\<close> calls their callables in exactly that order,
  first scheduled first.
\<close>

theorem same_step_events_fire_in_schedule_order:
  assumes "processed_steps cs = []"
  shows "sorted (map step (event_queue (em_calls raises cs (EventManager_init n))))
       \<and> filter (\<lambda>e. step e = T) (event_queue (em_calls raises cs (EventManager_init n))) =
           filter (\<lambda>e. step e = T) (accepted n cs)
       \<and> invoked (snd (process_events raises T (em_calls raises cs (EventManager_init n)))) =
           filter (\<lambda>e. step e = T) (accepted n cs)"
proof -
  let ?em = "em_calls raises cs (EventManager_init n)"
  have init: "event_queue (EventManager_init n :: 'a EventManager) = []"
    "invoked (EventManager_init n :: 'a EventManager) = []"
    "env_now (EventManager_init n :: 'a EventManager) = n"
    by (simp_all add: EventManager_init_def)
  have s: "sorted (map step (event_queue ?em))"
    by (rule sorted_em_calls) (simp add: init)
  have q: "filter (\<lambda>e. step e = T) (event_queue ?em) = filter (\<lambda>e. step e = T) (accepted n cs)"
    using queue_em_calls [OF assms, of T raises "EventManager_init n"] by (simp add: init)
  have "filter (\<lambda>e. step e = T \<and> \<not> triggered e) (event_queue ?em) =
        filter (\<lambda>e. \<not> triggered e) (filter (\<lambda>e. step e = T) (event_queue ?em))"
    by (simp add: conj_commute)
  also have "\<dots> = filter (\<lambda>e. \<not> triggered e) (filter (\<lambda>e. step e = T) (accepted n cs))"
    by (simp only: q)
  also have "\<dots> = filter (\<lambda>e. step e = T) (accepted n cs)"
    by (rule filter_True) (auto dest: accepted_untriggered)
  finally have "invoked (snd (process_events raises T ?em)) = filter (\<lambda>e. step e = T) (accepted n cs)"
    by (simp add: process_events_invoked invoked_em_calls [OF assms] init)
  with s q show ?thesis by blast
qed

theorem same_step_events_fire_in_schedule_order_witness:
  "processed_steps [Schedule 2 GENERAL ''a'' ''first'', Schedule 1 POLICY_CHANGE ''b'' ''second'',
      Timeout, Schedule 0 GENERAL ''c'' ''late'', Schedule 2 AGENT_ACTION ''d'' ''third''] = []
   \<and> map action (invoked (snd (process_events (\<lambda>a. False) 2
        (em_calls (\<lambda>a. False)
           [Schedule 2 GENERAL ''a'' ''first'', Schedule 1 POLICY_CHANGE ''b'' ''second'',
            Timeout, Schedule 0 GENERAL ''c'' ''late'', Schedule 2 AGENT_ACTION ''d'' ''third'']
           (EventManager_init 0))))) = [''a'', ''d'']"
proof -
  let ?cs = "[Schedule 2 GENERAL ''a'' ''first'', Schedule 1 POLICY_CHANGE ''b'' ''second'',
      Timeout, Schedule 0 GENERAL ''c'' ''late'', Schedule 2 AGENT_ACTION ''d'' ''third'']"
  have h: "processed_steps ?cs = []" by simp
  show ?thesis
    using same_step_events_fire_in_schedule_order [OF h, of "\<lambda>a. False" 0 2] h by (simp add: Event_init_def)
qed

text \<open>
  Claim C10. Processing step \<open>t\<close> removes from the queue exactly the events of step \<open>t\<close>
  that are not yet triggered, and those are the events whose callable it calls, whether
  or not the callable raises; every other event stays. So an untriggered event of the
  queue whose step is strictly less than \<open>t\<close> is still in the queue, and its callable
  has not been called, after any session of calls that processes only steps from \<open>t\<close> on.
\<close>

theorem process_events_removes_only_due:
  "event_queue (snd (process_events raises t em)) =
     filter (\<lambda>e. \<not> (step e = t \<and> \<not> triggered e)) (event_queue em)
   \<and> invoked (snd (process_events raises t em)) =
     invoked em @ filter (\<lambda>e. step e = t \<and> \<not> triggered e) (event_queue em)
   \<and> (e \<in> set (event_queue em) \<and> e \<notin> set (invoked em) \<and> \<not> triggered e \<and> step e < t
        \<and> (\<forall>u \<in> set (processed_steps cs). t \<le> u)
      \<longrightarrow> e \<in> set (event_queue (em_calls raises cs em))
        \<and> e \<notin> set (invoked (em_calls raises cs em)))"
proof -
  have "e \<in> set (event_queue (em_calls raises cs em)) \<and> e \<notin> set (invoked (em_calls raises cs em))"
    if "e \<in> set (event_queue em)" "e \<notin> set (invoked em)" "step e < t"
      "\<forall>u \<in> set (processed_steps cs). t \<le> u"
    using that by (intro em_calls_keeps) auto
  then show ?thesis
    by (simp add: process_events_queue process_events_invoked)
qed

theorem process_events_removes_only_due_witness:
  "Event_init 1 GENERAL ''a'' ''stale'' \<in> set (event_queue (schedule_event 1 GENERAL ''a'' ''stale'' (EventManager_init 0)))
   \<and> Event_init 1 GENERAL ''a'' ''stale'' \<in>
       set (event_queue (em_calls (\<lambda>a. False) [Process 3, Timeout, Schedule 4 GENERAL ''b'' ''next'', Process 4]
             (schedule_event 1 GENERAL ''a'' ''stale'' (EventManager_init 0))))
   \<and> Event_init 1 GENERAL ''a'' ''stale'' \<notin>
       set (invoked (em_calls (\<lambda>a. False) [Process 3, Timeout, Schedule 4 GENERAL ''b'' ''next'', Process 4]
             (schedule_event 1 GENERAL ''a'' ''stale'' (EventManager_init 0))))"
proof -
  let ?e = "Event_init 1 GENERAL ''a'' ''stale''"
  let ?em = "schedule_event 1 GENERAL ''a'' ''stale'' (EventManager_init 0)"
  have q: "event_queue ?em = [?e]" and i: "invoked ?em = []"
    by (simp_all add: schedule_event_def EventManager_init_def)
  have e: "\<not> triggered ?e" "step ?e < 3" by (simp_all add: Event_init_def)
  show ?thesis
    using process_events_removes_only_due [of "\<lambda>a. False" 3 ?em ?e "[Process 3, Timeout, Schedule 4 GENERAL ''b'' ''next'', Process 4]"]
      q i e by simp
qed

section \<open>Properties of the simulation loop\<close>

lemma stop_fields:
  "step_calls (stop eng) = step_calls eng"
  "current_step (stop eng) = current_step eng"
  "agents (stop eng) = agents eng"
  "event_manager (stop eng) = event_manager eng"
  "total_steps_config (stop eng) = total_steps_config eng"
  "results (stop eng) = results eng"
  "running (stop eng) = False"
  "filter (\<lambda>r. fst r = ERROR) (engine_log (stop eng)) = filter (\<lambda>r. fst r = ERROR) (engine_log eng)"
  by (simp_all add: stop_def)

lemma try_step_fields:
  "fst (try_step astep aid ag eng) = agent_after (astep (current_step eng) ag)"
  "current_step (snd (try_step astep aid ag eng)) = current_step eng"
  "event_manager (snd (try_step astep aid ag eng)) = event_manager eng"
  "total_steps_config (snd (try_step astep aid ag eng)) = total_steps_config eng"
  "results (snd (try_step astep aid ag eng)) = results eng"
  "agents (snd (try_step astep aid ag eng)) = agents eng"
  "step_calls (snd (try_step astep aid ag eng)) = step_calls eng @ [(aid ag, current_step eng)]"
  "running (snd (try_step astep aid ag eng)) =
     (running eng \<and> \<not> stop_called (astep (current_step eng) ag))"
  "filter (\<lambda>r. fst r = ERROR) (engine_log (snd (try_step astep aid ag eng))) =
     filter (\<lambda>r. fst r = ERROR) (engine_log eng) @
     (if raised (astep (current_step eng) ag) \<noteq> None
      then [(ERROR, ''Error during step for agent '' @ aid ag)] else [])"
  by (simp_all add: try_step_def Let_def stop_fields split: option.splits)

lemma step_agents_Cons:
  "step_agents astep aid (ag # ags) eng =
     (fst (try_step astep aid ag eng) # fst (step_agents astep aid ags (snd (try_step astep aid ag eng))),
      snd (step_agents astep aid ags (snd (try_step astep aid ag eng))))"
  by (simp add: case_prod_beta)

lemma step_agents_current_step:
  "current_step (snd (step_agents astep aid ags eng)) = current_step eng"
  by (induction ags arbitrary: eng) (simp_all add: step_agents_Cons try_step_fields del: step_agents.simps(2))

lemma step_agents_frame:
  "event_manager (snd (step_agents astep aid ags eng)) = event_manager eng \<and>
   total_steps_config (snd (step_agents astep aid ags eng)) = total_steps_config eng \<and>
   results (snd (step_agents astep aid ags eng)) = results eng \<and>
   agents (snd (step_agents astep aid ags eng)) = agents eng"
  by (induction ags arbitrary: eng) (simp_all add: step_agents_Cons try_step_fields del: step_agents.simps(2))

lemma step_agents_after:
  "fst (step_agents astep aid ags eng) = map (\<lambda>ag. agent_after (astep (current_step eng) ag)) ags"
  by (induction ags arbitrary: eng) (simp_all add: step_agents_Cons try_step_fields del: step_agents.simps(2))

lemma step_agents_calls:
  "step_calls (snd (step_agents astep aid ags eng)) =
     step_calls eng @ map (\<lambda>ag. (aid ag, current_step eng)) ags"
  by (induction ags arbitrary: eng) (simp_all add: step_agents_Cons try_step_fields del: step_agents.simps(2))

lemma step_agents_errors:
  "filter (\<lambda>r. fst r = ERROR) (engine_log (snd (step_agents astep aid ags eng))) =
     filter (\<lambda>r. fst r = ERROR) (engine_log eng) @
     map (\<lambda>ag. (ERROR, ''Error during step for agent '' @ aid ag))
       (filter (\<lambda>ag. raised (astep (current_step eng) ag) \<noteq> None) ags)"
  by (induction ags arbitrary: eng) (simp_all add: step_agents_Cons try_step_fields del: step_agents.simps(2))

lemma step_agents_running:
  "running (snd (step_agents astep aid ags eng)) =
     (running eng \<and> list_all (\<lambda>ag. \<not> stop_called (astep (current_step eng) ag)) ags)"
  by (induction ags arbitrary: eng) (simp_all add: step_agents_Cons try_step_fields del: step_agents.simps(2))

lemma simulation_day_fields:
  "step_calls (simulation_day raises astep aid day eng) =
     step_calls eng @ map (\<lambda>ag. (aid ag, day)) (agents eng)"
  "agents (simulation_day raises astep aid day eng) =
     map (\<lambda>ag. agent_after (astep day ag)) (agents eng)"
  "filter (\<lambda>r. fst r = ERROR) (engine_log (simulation_day raises astep aid day eng)) =
     filter (\<lambda>r. fst r = ERROR) (engine_log eng) @
     map (\<lambda>ag. (ERROR, ''Error during step for agent '' @ aid ag))
       (filter (\<lambda>ag. raised (astep day ag) \<noteq> None) (agents eng))"
  "running (simulation_day raises astep aid day eng) =
     (running eng \<and> list_all (\<lambda>ag. \<not> stop_called (astep day ag)) (agents eng))"
  "current_step (simulation_day raises astep aid day eng) = day"
  "total_steps_config (simulation_day raises astep aid day eng) = total_steps_config eng"
  "results (simulation_day raises astep aid day eng) = results eng"
  by (simp_all add: simulation_day_def Let_def case_prod_beta step_agents_calls step_agents_after
        step_agents_errors step_agents_running step_agents_current_step step_agents_frame)

lemma days_loop_calls:
  assumes "\<And>t ag. \<not> stop_called (astep t ag)"
    and "\<And>t ag. aid (agent_after (astep t ag)) = aid ag"
  shows "running eng \<Longrightarrow>
     step_calls (days_loop raises astep aid days eng) =
       step_calls eng @ concat (map (\<lambda>day. map (\<lambda>i. (i, day)) (map aid (agents eng))) days)"
proof (induction days arbitrary: eng)
  case Nil
  then show ?case by simp
next
  case (Cons day days)
  let ?eng1 = "simulation_day raises astep aid day eng"
  have r: "running ?eng1"
    using Cons.prems assms(1) by (simp add: simulation_day_fields list_all_iff)
  have ids: "map aid (agents ?eng1) = map aid (agents eng)"
    by (simp add: simulation_day_fields assms(2) comp_def)
  show ?case
    using Cons.IH [OF r] r by (simp add: Let_def simulation_day_fields comp_def assms(2))
qed

lemma agent_step_never_stops: "\<not> stop_called (agent_step t ag)"
  by (cases ag) (simp_all add: DisruptionAgent_step_def Let_def split: option.splits)

lemma agent_step_keeps_id: "agent_id_of (agent_after (agent_step t ag)) = agent_id_of ag"
  by (cases ag)
     (simp_all add: DisruptionAgent_step_def Let_def apply_impact_def remove_impact_def
        split: option.splits)

text \<open>
  Claim C9. In every iteration of the loop, \<^verbatim>\<open>step\<close> is called with the current step
  on every registered agent, in registration order, whatever the steps raise; each step
  that raises leaves one record of level error that names the agent, and the agents
  after it are stepped all the same. When no step calls \<^verbatim>\<open>stop\<close> (and a step does
  not change the id of its agent), the run goes through every step of
  \<^verbatim>\<open>range(total_steps)\<close> in this way, exceptions or not.
\<close>

theorem every_agent_steps_each_day:
  "step_calls (simulation_day raises astep aid day eng) =
     step_calls eng @ map (\<lambda>ag. (aid ag, day)) (agents eng)
   \<and> agents (simulation_day raises astep aid day eng) =
     map (\<lambda>ag. agent_after (astep day ag)) (agents eng)
   \<and> filter (\<lambda>r. fst r = ERROR) (engine_log (simulation_day raises astep aid day eng)) =
     filter (\<lambda>r. fst r = ERROR) (engine_log eng) @
     map (\<lambda>ag. (ERROR, ''Error during step for agent '' @ aid ag))
       (filter (\<lambda>ag. raised (astep day ag) \<noteq> None) (agents eng))
   \<and> ((\<forall>t ag. \<not> stop_called (astep t ag)) \<and> (\<forall>t ag. aid (agent_after (astep t ag)) = aid ag)
      \<longrightarrow> step_calls (simulation_loop raises astep aid eng) =
            step_calls eng @
            concat (map (\<lambda>day. map (\<lambda>ag. (aid ag, day)) (agents eng)) (py_range (total_steps eng))))"
proof -
  have "step_calls (simulation_loop raises astep aid eng) =
            step_calls eng @
            concat (map (\<lambda>day. map (\<lambda>ag. (aid ag, day)) (agents eng)) (py_range (total_steps eng)))"
    if a: "\<forall>t ag. \<not> stop_called (astep t ag)" and b: "\<forall>t ag. aid (agent_after (astep t ag)) = aid ag"
  proof -
    let ?eng1 = "eng\<lparr>running := True, engine_log := engine_log eng @ [(INFO, ''Simulation starting.'')]\<rparr>"
    have "step_calls (days_loop raises astep aid (py_range (total_steps ?eng1)) ?eng1) =
          step_calls ?eng1 @
          concat (map (\<lambda>day. map (\<lambda>i. (i, day)) (map aid (agents ?eng1))) (py_range (total_steps ?eng1)))"
      using a b by (intro days_loop_calls) simp_all
    then show ?thesis
      by (simp add: simulation_loop_def Let_def collect_final_results_def total_steps_def comp_def)
  qed
  then show ?thesis by (simp add: simulation_day_fields)
qed

theorem every_agent_steps_each_day_witness:
  "(\<forall>t ag. \<not> stop_called (agent_step t ag))
   \<and> (\<forall>t ag. agent_id_of (agent_after (agent_step t ag)) = agent_id_of ag)
   \<and> raised (agent_step 0 (BaseAgent ''Base_1'')) = Some NotImplementedError
   \<and> step_calls (simulation_loop (\<lambda>a. False) agent_step agent_id_of (example_engine 2)) =
       [(''Base_1'', 0), (''ExportAgent_F1'', 0), (''Base_1'', 1), (''ExportAgent_F1'', 1)]"
proof -
  have a: "\<forall>t ag. \<not> stop_called (agent_step t ag)"
    by (simp add: agent_step_never_stops)
  have b: "\<forall>t ag. agent_id_of (agent_after (agent_step t ag)) = agent_id_of ag"
    by (simp add: agent_step_keeps_id)
  have c: "agents (example_engine 2) = [BaseAgent ''Base_1'', ExportSectorAgent ''ExportAgent_F1'']"
    "step_calls (example_engine 2) = []" "py_range (total_steps (example_engine 2)) = [0, 1]"
    by (simp_all add: example_engine_def register_agent_def SimulationEngine_init_def
          total_steps_def py_range_def upto.simps)
  show ?thesis
    using every_agent_steps_each_day [of "\<lambda>a. False" agent_step agent_id_of 0 "example_engine 2"] a b c by simp
qed

text \<open>
  Claim C7 says that a run with \<^verbatim>\<open>total_steps = 0\<close> reports zero steps run and never
  calls a step. On the code, with two agents registered: no step is called, but the
  loop body never assigns \<^verbatim>\<open>current_step\<close>, which is still \<open>0\<close>, and
  \<^verbatim>\<open>_collect_final_results\<close> stores \<^verbatim>\<open>current_step + 1\<close>: the run reports one day.
\<close>

theorem zero_steps_run_reports_one_day:
  "fst (run_simulation (\<lambda>a. False) agent_step agent_id_of (example_engine 0)) =
     [(''total_simulation_days'', 1), (''total_agents'', 2)]
   \<and> step_calls (snd (run_simulation (\<lambda>a. False) agent_step agent_id_of (example_engine 0))) = []
   \<and> total_steps (example_engine 0) = 0
   \<and> length (agents (example_engine 0)) = 2"
  by code_simp

section \<open>The disruption agent with \<^verbatim>\<open>start_step = 5\<close> and \<^verbatim>\<open>duration = 3\<close>\<close>

text \<open>
  Claim C1 says that the agent is inactive through step 4, becomes active at step 5 with
  one \<^verbatim>\<open>apply_impact\<close>, stays active at steps 6 and 7, and becomes inactive at step 8
  with one \<^verbatim>\<open>remove_impact\<close>, each called once over the run. On the code the first
  three hold, but the counter starts at the duration on the activating step and is
  tested before it is decremented: step 8 takes it from 1 to 0 and the agent is still
  active; it is step 9 that deactivates it and calls \<^verbatim>\<open>remove_impact\<close>. At step 10 the
  agent is inactive at a step not before \<^verbatim>\<open>start_step\<close>, so it activates again and
  \<^verbatim>\<open>apply_impact\<close> is called a second time.
\<close>

theorem disruption_agent_ends_one_step_late:
  "\<not> active (DisruptionAgent_steps [0..4] example_disruption_agent)
   \<and> impact_calls (DisruptionAgent_steps [0..4] example_disruption_agent) = []
   \<and> active (DisruptionAgent_steps [0..5] example_disruption_agent)
   \<and> impact_calls (DisruptionAgent_steps [0..5] example_disruption_agent) = [(APPLY_IMPACT, 5)]
   \<and> active (DisruptionAgent_steps [0..7] example_disruption_agent)
   \<and> active (DisruptionAgent_steps [0..8] example_disruption_agent)
   \<and> impact_calls (DisruptionAgent_steps [0..8] example_disruption_agent) = [(APPLY_IMPACT, 5)]
   \<and> \<not> active (DisruptionAgent_steps [0..9] example_disruption_agent)
   \<and> impact_calls (DisruptionAgent_steps [0..9] example_disruption_agent) =
       [(APPLY_IMPACT, 5), (REMOVE_IMPACT, 9)]
   \<and> active (DisruptionAgent_steps [0..10] example_disruption_agent)
   \<and> impact_calls (DisruptionAgent_steps [0..10] example_disruption_agent) =
       [(APPLY_IMPACT, 5), (REMOVE_IMPACT, 9), (APPLY_IMPACT, 10)]"
  by code_simp

section \<open>Properties of the network\<close>

text \<open>
  Claim C3 says that applying a disruption to a node of the graph sets its status to
  disrupted and stores the details, and that clearing it restores the status. On the
  code, for a node that is in the network, \<^verbatim>\<open>apply_disruption_to_node\<close> ends in the
  \<^verbatim>\<open>AttributeError\<close> of the missing \<^verbatim>\<open>update_status\<close>: the network and the status of
  the node are what they were.
\<close>

theorem apply_disruption_to_node_raises:
  "apply_disruption_to_node ''A'' [(''type'', ''Flood'')] example_network =
     (Some (AttributeError ''update_status''), example_network)
   \<and> map_option operational_status (get_node example_network ''A'') = Some ''OPERATIONAL''"
  by code_simp




end
